theory Spec2Isabelle
  imports Complex_Main
begin

section \<open>Python values as \<open>json.loads\<close> produces them\<close>

text \<open>
  \<open>sensors-check.py\<close> hands the text printed by \<open>sqlite3 -json\<close> to \<open>json.loads\<close>
  and walks over whatever comes back. The values are Python objects: \<open>None\<close>, \<open>bool\<close>,
  \<open>int\<close> (unbounded), \<open>float\<close>, \<open>str\<close>, \<open>list\<close> and \<open>dict\<close>. A float is kept by its
  exact value (every finite double is a rational), with the two infinities and NaN
  apart. A \<open>dict\<close> is the list of its items in insertion order; lookup takes the first
  item with the key.
\<close>

datatype pyfloat = Finite rat | PosInf | NegInf | NaN

datatype json =
    JNull
  | JBool bool
  | JInt int
  | JFloat pyfloat
  | JStr string
  | JArr "json list"
  | JObj "(string \<times> json) list"

datatype error = TypeError | AttributeError | KeyError | ValueError | RecursionError

text \<open>
  What \<open>json.loads\<close> does with a text: it returns the value, it raises
  \<open>JSONDecodeError\<close>, or it raises an exception of another class (\<open>RecursionError\<close> on
  brackets nested deeper than the interpreter's recursion limit, \<open>ValueError\<close> on an
  integer literal longer than the limit of the integer conversion).
\<close>

datatype loads_result = Loaded json | JSONDecodeError | Raises error

text \<open>Truth value of an object, as \<open>not mac\<close> tests it.\<close>

fun truthy :: "json \<Rightarrow> bool" where
  "truthy JNull = False"
| "truthy (JBool b) = b"
| "truthy (JInt i) = (i \<noteq> 0)"
| "truthy (JFloat f) = (f \<noteq> Finite 0)"
| "truthy (JStr s) = (s \<noteq> [])"
| "truthy (JArr xs) = (xs \<noteq> [])"
| "truthy (JObj kvs) = (kvs \<noteq> [])"

text \<open>\<open>list\<close> and \<open>dict\<close> have no hash: using one as a dictionary key raises \<open>TypeError\<close>.\<close>

fun hashable :: "json \<Rightarrow> bool" where
  "hashable (JArr xs) = False"
| "hashable (JObj kvs) = False"
| "hashable v = True"

text \<open>
  Two keys of a dictionary are the same key when they are the same object or compare
  equal with \<open>==\<close>. Numbers compare by exact value across \<open>bool\<close>, \<open>int\<close> and \<open>float\<close>
  (\<open>True == 1 == 1.0\<close>); \<open>json.loads\<close> returns one and the same NaN object for every
  \<open>NaN\<close> literal, so the identity test finds it again. \<open>hash_key\<close> maps a value to the
  representative of its class.
\<close>

fun hash_key :: "json \<Rightarrow> json" where
  "hash_key (JBool b) = JFloat (Finite (if b then 1 else 0))"
| "hash_key (JInt i) = JFloat (Finite (of_int i))"
| "hash_key v = v"

definition py_eq :: "json \<Rightarrow> json \<Rightarrow> bool" where
  "py_eq a b = (hash_key a = hash_key b)"

type_synonym 'v dict = "(json \<times> 'v) list"

fun dict_get :: "'v dict \<Rightarrow> json \<Rightarrow> 'v option" where
  "dict_get [] k = None"
| "dict_get ((k', v) # d) k = (if py_eq k' k then Some v else dict_get d k)"

text \<open>Assignment \<open>d[k] = v\<close>: an existing key keeps its place and its first spelling.\<close>

fun dict_set :: "'v dict \<Rightarrow> json \<Rightarrow> 'v \<Rightarrow> 'v dict" where
  "dict_set [] k v = [(k, v)]"
| "dict_set ((k', v') # d) k v =
     (if py_eq k' k then (k', v) # d else (k', v') # dict_set d k v)"

text \<open>\<open>record.get(key, default)\<close>: only a \<open>dict\<close> has the method.\<close>

fun record_get :: "json \<Rightarrow> string \<Rightarrow> json \<Rightarrow> error + json" where
  "record_get (JObj kvs) k d = Inr (case map_of kvs k of None \<Rightarrow> d | Some v \<Rightarrow> v)"
| "record_get v k d = Inl AttributeError"

text \<open>
  \<open>for record in records\<close>: a list yields its elements, a dict its keys, a string its
  characters; anything else is not iterable.
\<close>

fun py_iter :: "json \<Rightarrow> error + json list" where
  "py_iter (JArr xs) = Inr xs"
| "py_iter (JObj kvs) = Inr (map (\<lambda>kv. JStr (fst kv)) kvs)"
| "py_iter (JStr s) = Inr (map (\<lambda>c. JStr [c]) s)"
| "py_iter v = Inl TypeError"

section \<open>The check-in analyzer\<close>

text \<open>
  \<open>str.strip()\<close> on the characters the model has: the ASCII white space of
  \<open>str.isspace\<close> (tab to carriage return, the four separators 0x1C to 0x1F, space).
\<close>

definition is_space :: "char \<Rightarrow> bool" where
  "is_space c = (let n = (of_char c :: nat) in (9 \<le> n \<and> n \<le> 13) \<or> (28 \<le> n \<and> n \<le> 32))"

definition strip :: "string \<Rightarrow> string" where
  "strip s = rev (dropWhile is_space (rev (dropWhile is_space s)))"

text \<open>
  The first loop of \<open>analyze_sensor_data\<close>. The state is the pair
  \<open>(mac_counts, mac_locations)\<close>; \<open>mac_counts\<close> is a \<open>defaultdict(int)\<close>, so a key not
  yet there counts from 0.
\<close>

type_synonym tally = "int dict \<times> json dict"

definition count_record :: "tally \<Rightarrow> json \<Rightarrow> error + tally" where
  "count_record t record =
     (case record_get record ''mac'' JNull of
        Inl e \<Rightarrow> Inl e
      | Inr mac \<Rightarrow>
          if \<not> truthy mac then Inr t
          else if \<not> hashable mac then Inl TypeError
          else
            let mac_counts = dict_set (fst t) mac
                  ((case dict_get (fst t) mac of None \<Rightarrow> 0 | Some c \<Rightarrow> c) + 1)
            in if dict_get (snd t) mac = None
               then (case record_get record ''location'' (JStr ''unknown location'') of
                       Inl e \<Rightarrow> Inl e
                     | Inr loc \<Rightarrow> Inr (mac_counts, dict_set (snd t) mac loc))
               else Inr (mac_counts, snd t))"

fun count_records :: "tally \<Rightarrow> json list \<Rightarrow> error + tally" where
  "count_records t [] = Inr t"
| "count_records t (r # rs) =
     (case count_record t r of Inl e \<Rightarrow> Inl e | Inr t' \<Rightarrow> count_records t' rs)"

text \<open>
  The second loop, over \<open>mac_counts.items()\<close> in insertion order.
  \<open>mac_locations[mac]\<close> raises \<open>KeyError\<close> on a key that is not there.
\<close>

fun collect_missing :: "int \<Rightarrow> json dict \<Rightarrow> int dict \<Rightarrow> error + (json \<times> json) list" where
  "collect_missing n locs [] = Inr []"
| "collect_missing n locs ((mac, count) # rest) =
     (if count < n then
        (case dict_get locs mac of
           None \<Rightarrow> Inl KeyError
         | Some loc \<Rightarrow>
             (case collect_missing n locs rest of
                Inl e \<Rightarrow> Inl e
              | Inr out \<Rightarrow> Inr ((mac, loc) # out)))
      else collect_missing n locs rest)"

text \<open>
  \<open>analyze_sensor_data\<close>. \<open>json.loads\<close> belongs to the standard library and is a
  parameter. \<open>except json.JSONDecodeError\<close> catches that class only: any other
  exception of \<open>json.loads\<close> leaves the function. \<open>MIN_CHECKINS\<close> is the module
  constant read from the environment.
\<close>

definition analyze_sensor_data ::
  "(string \<Rightarrow> loads_result) \<Rightarrow> int \<Rightarrow> string \<Rightarrow> error + (json \<times> json) list" where
  "analyze_sensor_data loads min_checkins json_output =
     (if strip json_output = [] then Inr []
      else
        (case loads json_output of
           JSONDecodeError \<Rightarrow> Inr []
         | Raises e \<Rightarrow> Inl e
         | Loaded records \<Rightarrow>
             (case py_iter records of
                Inl e \<Rightarrow> Inl e
              | Inr rs \<Rightarrow>
                  (case count_records ([], []) rs of
                     Inl e \<Rightarrow> Inl e
                   | Inr t \<Rightarrow> collect_missing min_checkins (snd t) (fst t)))))"

section \<open>Effects of a run\<close>

text \<open>
  Both scripts are single-shot: a run is the list of what it does to the outside, in
  order, and the exit code of the process. A log line is kept with its level and text
  (\<open>logger.exception\<close> logs at \<open>ERROR\<close>; the traceback it appends is left out, and so
  are the \<open>logger.debug\<close> calls, which level \<open>INFO\<close> drops, and the lines the analyzer
  itself logs). A notification is the request given to \<open>client.post\<close>.
\<close>

datatype level = INFO | WARNING | ERROR

record request =
  url :: string
  auth :: "(string option \<times> string option) option"
  headers :: "(string \<times> string) list"
  body :: string

datatype event =
    Log level string
  | SshRun "string option" "string option" string
  | HttpPost request

record run =
  events :: "event list"
  exit_code :: nat

text \<open>
  What the notification server answers: a 2xx response with its text, a status that
  \<open>raise_for_status\<close> turns into \<open>HTTPStatusError\<close> (status code, response text and
  the text of the exception), or any other exception raised inside the \<open>try\<close> block.
\<close>

datatype http_result =
    HttpOk string
  | HttpStatusError nat string string
  | HttpError string

text \<open>
  What the remote shell answers: the standard output of the command,
  \<open>asyncssh.Error\<close>, or an exception of another class (a refused connection is an
  \<open>OSError\<close>); the string is the text of the exception.
\<close>

datatype ssh_result =
    SshStdout string
  | SshError string
  | OtherError string

text \<open>
  The environment after \<open>load_dotenv()\<close>. \<open>os.getenv\<close> gives \<open>None\<close> for a name
  that is not set; \<open>MINUTES_AGO\<close> and \<open>MIN_CHECKINS\<close> are already through \<open>int(...)\<close>.
\<close>

record environ =
  NTFY_HOST :: "string option"
  NTFY_SENSOR_TOPIC :: "string option"
  NTFY_EOD_TOPIC :: "string option"
  NTFY_USERNAME :: "string option"
  NTFY_PASSWORD :: "string option"
  SSH_HOST :: "string option"
  SSH_USERNAME :: "string option"
  DATABASE_PATH :: "string option"
  MINUTES_AGO :: int
  MIN_CHECKINS :: int

text \<open>\<open>not value\<close> on a value of \<open>os.getenv\<close>: \<open>None\<close> and the empty string are false.\<close>

definition unset :: "string option \<Rightarrow> bool" where
  "unset v = (case v of None \<Rightarrow> True | Some s \<Rightarrow> s = [])"

text \<open>A value of \<open>os.getenv\<close> inside an f-string.\<close>

definition fmt_env :: "string option \<Rightarrow> string" where
  "fmt_env v = (case v of None \<Rightarrow> ''None'' | Some s \<Rightarrow> s)"

fun join :: "string \<Rightarrow> string list \<Rightarrow> string" where
  "join sep [] = []"
| "join sep [x] = x"
| "join sep (x # y # ys) = x @ sep @ join sep (y # ys)"

text \<open>Decimal text of an integer, as an f-string prints it.\<close>

fun str_nat :: "nat \<Rightarrow> string" where
  "str_nat n =
     (if n < 10 then [char_of (48 + n)]
      else str_nat (n div 10) @ [char_of (48 + n mod 10)])"

declare str_nat.simps [simp del]

definition str_int :: "int \<Rightarrow> string" where
  "str_int i = (if i < 0 then CHR ''-'' # str_nat (nat (- i)) else str_nat (nat i))"

section \<open>The sensor workflow (\<open>sensors-check.py\<close>)\<close>

definition send_notification ::
  "environ \<Rightarrow> http_result \<Rightarrow> string \<Rightarrow> string \<Rightarrow> string list \<Rightarrow> string \<Rightarrow> event list" where
  "send_notification env response title message emojis priority =
     (if unset (NTFY_HOST env) \<or> unset (NTFY_SENSOR_TOPIC env) then
        [Log ERROR ''NTFY_HOST and NTFY_SENSOR_TOPIC environment variables must be set.'']
      else
        let target = fmt_env (NTFY_HOST env) @ ''/'' @ fmt_env (NTFY_SENSOR_TOPIC env);
            credentials =
              (if \<not> unset (NTFY_USERNAME env) \<and> \<not> unset (NTFY_PASSWORD env)
               then Some (NTFY_USERNAME env, NTFY_PASSWORD env) else None);
            hs = [(''Title'', title), (''Priority'', priority)]
                 @ (if emojis \<noteq> [] then [(''Tags'', join '','' emojis)] else [])
        in [Log INFO (''Sending notification to '' @ target),
            HttpPost \<lparr>url = target, auth = credentials, headers = hs, body = message\<rparr>]
           @ (case response of
                HttpOk text \<Rightarrow> [Log INFO (''Notification sent successfully: '' @ text)]
              | HttpStatusError code text e \<Rightarrow>
                  [Log ERROR (''HTTP error sending notification: '' @ str_nat code
                              @ '' - '' @ text)]
              | HttpError e \<Rightarrow> [Log ERROR (''Failed to send notification: '' @ e)]))"

text \<open>
  \<open>execute_sql_query\<close>: one connection, one command. \<open>asyncssh.Error\<close> is logged and
  raised again; any other exception passes through unlogged. \<open>Inl\<close> is the raise.
\<close>

definition execute_sql_query ::
  "environ \<Rightarrow> ssh_result \<Rightarrow> string option \<Rightarrow> string option \<Rightarrow> string
     \<Rightarrow> event list \<times> (string + string)" where
  "execute_sql_query env answer host username sql =
     (let command = ''sqlite3 -json '' @ fmt_env (DATABASE_PATH env)
                    @ [CHR 0x20, CHR 0x22] @ sql @ [CHR 0x22]
      in case answer of
           SshStdout out \<Rightarrow> ([SshRun host username command], Inr out)
         | SshError e \<Rightarrow>
             ([SshRun host username command, Log ERROR (''SSH connection error: '' @ e)],
              Inl e)
         | OtherError e \<Rightarrow> ([SshRun host username command], Inl e))"

text \<open>\<open>build_query\<close>; the argument is \<open>cutoff_str\<close>, the formatted cutoff time.\<close>

definition build_query :: "string \<Rightarrow> string" where
  "build_query cutoff_str =
     [CHR 0x0A] @ ''    SELECT mac, location, timestamp '' @
     [CHR 0x0A] @ ''    FROM temp_humidity '' @
     [CHR 0x0A] @ ''    WHERE timestamp >= '' @ [CHR 0x27] @ cutoff_str @ [CHR 0x27] @
     [CHR 0x0A] @ ''    ORDER BY mac, timestamp'' @
     [CHR 0x0A] @ ''    ''"

text \<open>
  What a run of the sensor script meets outside: the two readings of the clock (the
  cutoff as \<open>build_query\<close> formats it and as the log line prints it), the answer of the
  remote shell and the answer of the notification server.
\<close>

record world =
  cutoff :: string
  since :: string
  ssh :: ssh_result
  http :: http_result

definition required_vars :: "environ \<Rightarrow> (string \<times> string option) list" where
  "required_vars env =
     [(''NTFY_HOST'', NTFY_HOST env),
      (''NTFY_SENSOR_TOPIC'', NTFY_SENSOR_TOPIC env),
      (''SSH_HOST'', SSH_HOST env),
      (''SSH_USERNAME'', SSH_USERNAME env),
      (''DATABASE_PATH'', DATABASE_PATH env)]"

definition missing_vars :: "environ \<Rightarrow> string list" where
  "missing_vars env = map fst (filter (\<lambda>nv. unset (snd nv)) (required_vars env))"

definition unhandled :: event where
  "unhandled = Log ERROR ''An unhandled error occurred during script execution.''"

text \<open>
  \<open>main\<close> of \<open>sensors-check.py\<close>. \<open>json.loads\<close> and the built-in \<open>str\<close> (for the
  \<open>mac\<close> and \<open>location\<close> values of the message) are parameters. \<open>sys.exit(1)\<close> ends
  the process with code 1; returning from \<open>main\<close> ends it with code 0.
\<close>

definition sensors_main ::
  "(string \<Rightarrow> loads_result) \<Rightarrow> (json \<Rightarrow> string) \<Rightarrow> environ \<Rightarrow> world \<Rightarrow> run" where
  "sensors_main loads py_str env w =
     (if missing_vars env \<noteq> [] then
        \<lparr>events = [Log ERROR (''Missing required environment variables: ''
                              @ join '', '' (missing_vars env) @ ''. Exiting.'')],
         exit_code = 1\<rparr>
      else
        let sql_query = build_query (cutoff w);
            started = [Log INFO (''Querying for data since: '' @ since w)];
            fetched = execute_sql_query env (ssh w) (SSH_HOST env) (SSH_USERNAME env) sql_query
        in case snd fetched of
             Inl e \<Rightarrow> \<lparr>events = started @ fst fetched @ [unhandled], exit_code = 1\<rparr>
           | Inr json_output \<Rightarrow>
               if strip json_output = [] then
                 \<lparr>events = started @ fst fetched
                    @ [Log WARNING
                         ''No sensor data found in time period. All sensors may be offline.'']
                    @ send_notification env (http w) ''Sensor Check-in Alert''
                        (''No sensor data received in the last '' @ str_int (MINUTES_AGO env)
                         @ '' minutes. All sensors may be offline.'')
                        [''warning'', ''thermometer''] ''4'',
                  exit_code = 0\<rparr>
               else
                 (case analyze_sensor_data loads (MIN_CHECKINS env) json_output of
                    Inl e \<Rightarrow> \<lparr>events = started @ fst fetched @ [unhandled], exit_code = 1\<rparr>
                  | Inr missing_checkins \<Rightarrow>
                      if missing_checkins \<noteq> [] then
                        let n = str_nat (length missing_checkins);
                            missing_sensors_str =
                              join [CHR 0x0A]
                                (map (\<lambda>ml. py_str (fst ml) @ '' ('' @ py_str (snd ml) @ '')'')
                                   missing_checkins);
                            message = ''Missing check-ins detected for '' @ n
                                      @ '' sensor(s):'' @ [CHR 0x0A] @ missing_sensors_str
                        in \<lparr>events = started @ fst fetched
                              @ [Log WARNING (''Missing check-ins detected for '' @ n
                                              @ '' sensor(s).'')]
                              @ send_notification env (http w) ''Sensor Check-in Alert''
                                  message [''warning'', ''thermometer''] ''2'',
                            exit_code = 0\<rparr>
                      else
                        \<lparr>events = started @ fst fetched
                           @ [Log INFO (''All sensors have sufficient check-ins in the last ''
                                        @ str_int (MINUTES_AGO env) @ '' minutes.'')],
                         exit_code = 0\<rparr>))"

section \<open>The quote workflow (\<open>rklb-price.py\<close>)\<close>



fun type_name :: "json \<Rightarrow> string" where
  "type_name JNull = ''NoneType''"
| "type_name (JBool b) = ''bool''"
| "type_name (JInt i) = ''int''"
| "type_name (JFloat f) = ''float''"
| "type_name (JStr s) = ''str''"
| "type_name (JArr xs) = ''list''"
| "type_name (JObj kvs) = ''dict''"







section \<open>Vocabulary of the properties\<close>

text \<open>
  The identifier of a record is what \<open>record.get('mac')\<close> returns; a record has the
  identifier \<open>m\<close> when the two are the same dictionary key. The occurrence count of an
  identifier is the number of records that have it, and its first location is the
  \<open>record.get('location', 'unknown location')\<close> of the first of them in input order.
\<close>

definition has_mac :: "json \<Rightarrow> json \<Rightarrow> bool" where
  "has_mac m r = (case record_get r ''mac'' JNull of Inl e \<Rightarrow> False | Inr k \<Rightarrow> py_eq k m)"

definition occurrences :: "json \<Rightarrow> json list \<Rightarrow> nat" where
  "occurrences m rs = length (filter (has_mac m) rs)"

definition location_of :: "json \<Rightarrow> json" where
  "location_of r =
     (case record_get r ''location'' (JStr ''unknown location'') of
        Inl e \<Rightarrow> JStr ''unknown location''
      | Inr v \<Rightarrow> v)"

definition first_location :: "json \<Rightarrow> json list \<Rightarrow> json option" where
  "first_location m rs =
     (case filter (has_mac m) rs of [] \<Rightarrow> None | r # rest \<Rightarrow> Some (location_of r))"

text \<open>
  The report as a function of the records alone. The identifiers that count are the
  \<open>mac\<close> values that are true as a condition, in input order; each is kept at its
  first occurrence; those with fewer occurrences than the threshold are listed, each
  with its first location.
\<close>

fun counted_macs :: "json list \<Rightarrow> json list" where
  "counted_macs [] = []"
| "counted_macs (r # rs) =
     (case record_get r ''mac'' JNull of
        Inl e \<Rightarrow> counted_macs rs
      | Inr k \<Rightarrow> if truthy k then k # counted_macs rs else counted_macs rs)"

fun keep_first :: "json list \<Rightarrow> json list" where
  "keep_first [] = []"
| "keep_first (k # ks) = k # keep_first (filter (\<lambda>k'. \<not> py_eq k k') ks)"

definition first_seen :: "json list \<Rightarrow> json list" where
  "first_seen rs = keep_first (counted_macs rs)"

definition expected_report :: "int \<Rightarrow> json list \<Rightarrow> (json \<times> json) list" where
  "expected_report n rs =
     map (\<lambda>k. (k, case first_location k rs of
                      None \<Rightarrow> JStr ''unknown location''
                    | Some l \<Rightarrow> l))
       (filter (\<lambda>k. int (occurrences k rs) < n) (first_seen rs))"

text \<open>The same keys, collected from left to right as the dictionary collects them.\<close>

fun collect_keys :: "json list \<Rightarrow> json list \<Rightarrow> json list" where
  "collect_keys acc [] = acc"
| "collect_keys acc (k # ks) =
     collect_keys (if list_ex (\<lambda>a. py_eq a k) acc then acc else acc @ [k]) ks"

text \<open>
  A record the first loop can process: a JSON object whose \<open>mac\<close>, when it is not
  skipped, can be a dictionary key.
\<close>

definition well_formed :: "json \<Rightarrow> bool" where
  "well_formed r =
     (case record_get r ''mac'' JNull of
        Inl e \<Rightarrow> False
      | Inr k \<Rightarrow> \<not> truthy k \<or> hashable k)"

definition count_of :: "int dict \<Rightarrow> json \<Rightarrow> int" where
  "count_of d m = (case dict_get d m of None \<Rightarrow> 0 | Some c \<Rightarrow> c)"

text \<open>Invariants of the two dictionaries.\<close>

definition same_keys :: "int dict \<Rightarrow> json dict \<Rightarrow> bool" where
  "same_keys cs ls = (\<forall>m. (dict_get cs m = None) = (dict_get ls m = None))"

definition distinct_keys :: "'v dict \<Rightarrow> bool" where
  "distinct_keys d = distinct (map (\<lambda>kv. hash_key (fst kv)) d)"

text \<open>The notifications of a run, and the priority a notification asks for.\<close>

fun posts :: "event list \<Rightarrow> request list" where
  "posts [] = []"
| "posts (HttpPost r # es) = r # posts es"
| "posts (e # es) = posts es"

definition priority_of :: "request \<Rightarrow> nat option" where
  "priority_of r =
     (case map_of (headers r) ''Priority'' of
        Some [c] \<Rightarrow>
          (let n = (of_char c :: nat) in if 48 \<le> n \<and> n \<le> 57 then Some (n - 48) else None)
      | _ \<Rightarrow> None)"

subsection \<open>Sample inputs\<close>

definition sample_text :: string where
  \<open>sample_text =
     ''[{"mac":"A","location":"wine"},{"mac":"A","location":"wine"},{"mac":"B","location":"cellar"}]''\<close>

definition sample_rows :: "json list" where
  "sample_rows =
     [JObj [(''mac'', JStr ''A''), (''location'', JStr ''wine'')],
      JObj [(''mac'', JStr ''A''), (''location'', JStr ''wine'')],
      JObj [(''mac'', JStr ''B''), (''location'', JStr ''cellar'')]]"

definition blank_text :: string where
  \<open>blank_text = ''[{"mac":"","location":"wine"}]''\<close>

definition blank_rows :: "json list" where
  "blank_rows = [JObj [(''mac'', JStr ''''), (''location'', JStr ''wine'')]]"

definition bare_text :: string where
  \<open>bare_text = ''[{"location":"attic"},{"mac":"C"}]''\<close>

definition bare_rows :: "json list" where
  "bare_rows = [JObj [(''location'', JStr ''attic'')], JObj [(''mac'', JStr ''C'')]]"

definition lone_text :: string where
  \<open>lone_text = ''[{"mac":"C"}]''\<close>

definition lone_rows :: "json list" where
  "lone_rows = [JObj [(''mac'', JStr ''C'')]]"

text \<open>One hundred thousand opening brackets: \<open>'[' * 100000\<close>.\<close>

definition deep_text :: string where
  "deep_text = replicate 100000 (CHR ''['')"

text \<open>
  \<open>json.loads\<close> on the sample texts: the four arrays are parsed, the nesting of
  \<open>deep_text\<close> exceeds the recursion limit, and every other text is taken as rejected.
\<close>

definition sample_loads :: "string \<Rightarrow> loads_result" where
  "sample_loads s =
     (if s = sample_text then Loaded (JArr sample_rows)
      else if s = blank_text then Loaded (JArr blank_rows)
      else if s = bare_text then Loaded (JArr bare_rows)
      else if s = lone_text then Loaded (JArr lone_rows)
      else if s = deep_text then Raises RecursionError
      else JSONDecodeError)"

text \<open>The parser of another run, which has only seen \<open>sample_text\<close>.\<close>

definition other_loads :: "string \<Rightarrow> loads_result" where
  "other_loads s = (if s = sample_text then Loaded (JArr sample_rows) else JSONDecodeError)"

fun show_value :: "json \<Rightarrow> string" where
  "show_value (JStr s) = s"
| "show_value v = type_name v"

definition sample_env :: environ where
  "sample_env =
     \<lparr>NTFY_HOST = Some ''https://ntfy.example'', NTFY_SENSOR_TOPIC = Some ''sensors'',
      NTFY_EOD_TOPIC = Some ''eod'', NTFY_USERNAME = Some ''user'',
      NTFY_PASSWORD = Some ''secret'', SSH_HOST = Some ''pi.example'',
      SSH_USERNAME = Some ''pi'', DATABASE_PATH = Some ''/srv/sensors.db'',
      MINUTES_AGO = 45, MIN_CHECKINS = 2\<rparr>"

definition sample_world :: "ssh_result \<Rightarrow> world" where
  "sample_world answer =
     \<lparr>cutoff = ''2025-06-30 00:50:00'', since = ''2025-06-30 00:50:00.000000+00:00'',
      ssh = answer, http = HttpOk ''ok''\<rparr>"


section \<open>Properties of the analyzer\<close>

subsection \<open>Dictionaries\<close>

lemma py_eq_truthy: "py_eq a b \<Longrightarrow> truthy a = truthy b"
  unfolding py_eq_def by (cases a; cases b) (auto split: if_splits)

lemma dict_get_set: "dict_get (dict_set d k v) m = (if py_eq k m then Some v else dict_get d m)"
  by (induction d) (auto simp: py_eq_def)

lemma dict_get_None: "(dict_get d k = None) = (\<forall>kv\<in>set d. \<not> py_eq (fst kv) k)"
  by (induction d) (auto split: if_splits)

lemma dict_get_cong: "py_eq a b \<Longrightarrow> dict_get d a = dict_get d b"
  by (induction d) (auto simp: py_eq_def)

lemma record_get_location: "record_get r ''mac'' JNull = Inr mac \<Longrightarrow>
   record_get r ''location'' (JStr ''unknown location'') = Inr (location_of r)"
  by (cases r) (simp_all add: location_of_def)

lemma count_record_cases:
  assumes "count_record (cs, ls) r = Inr (cs', ls')"
  obtains mac where "record_get r ''mac'' JNull = Inr mac" "\<not> truthy mac" "cs' = cs" "ls' = ls"
  | mac where "record_get r ''mac'' JNull = Inr mac" "truthy mac" "hashable mac"
      "cs' = dict_set cs mac (count_of cs mac + 1)"
      "ls' = (if dict_get ls mac = None then dict_set ls mac (location_of r) else ls)"
proof (cases "record_get r ''mac'' JNull")
  case (Inl e)
  with assms show ?thesis by (simp add: count_record_def)
next
  case (Inr mac)
  note loc = record_get_location[OF Inr]
  show ?thesis
  proof (cases "truthy mac")
    case False
    with assms Inr that(1) show ?thesis by (simp add: count_record_def)
  next
    case True
    with assms Inr have h: "hashable mac" by (simp add: count_record_def split: if_splits)
    show ?thesis
    proof (rule that(2)[OF Inr True h])
      show "cs' = dict_set cs mac (count_of cs mac + 1)"
        using assms Inr True h loc by (simp add: count_record_def count_of_def Let_def split: if_splits)
      show "ls' = (if dict_get ls mac = None then dict_set ls mac (location_of r) else ls)"
        using assms Inr True h loc by (auto simp: count_record_def Let_def split: if_splits)
    qed
  qed
qed

lemma has_mac_falsy:
  assumes "record_get r ''mac'' JNull = Inr mac" "\<not> truthy mac" "truthy m"
  shows "\<not> has_mac m r"
  using assms py_eq_truthy[of mac m] by (auto simp: has_mac_def)

lemma has_mac_eq:
  assumes "record_get r ''mac'' JNull = Inr mac"
  shows "has_mac m r = py_eq mac m"
  using assms by (simp add: has_mac_def)

lemma step_count:
  assumes "count_record (cs, ls) r = Inr (cs', ls')" "truthy m"
  shows "count_of cs' m = count_of cs m + (if has_mac m r then 1 else 0)"
  using assms(1)
proof (cases rule: count_record_cases)
  case (1 mac)
  then show ?thesis using has_mac_falsy[OF 1(1,2) assms(2)] by simp
next
  case (2 mac)
  show ?thesis
  proof (cases "py_eq mac m")
    case True
    then have "count_of cs mac = count_of cs m"
      by (simp add: count_of_def dict_get_cong)
    with True 2 show ?thesis
      by (simp add: has_mac_eq count_of_def dict_get_set)
  next
    case False
    with 2 show ?thesis
      by (simp add: has_mac_eq count_of_def dict_get_set)
  qed
qed

lemma step_present:
  assumes "count_record (cs, ls) r = Inr (cs', ls')"
  shows "(dict_get cs' m = None) = (dict_get cs m = None \<and> \<not> (truthy m \<and> has_mac m r))"
  using assms
proof (cases rule: count_record_cases)
  case (1 mac)
  then show ?thesis using has_mac_falsy[OF 1(1,2)] by auto
next
  case (2 mac)
  then show ?thesis
    using py_eq_truthy[of mac m]
    by (auto simp: dict_get_set has_mac_eq)
qed

lemma step_location:
  assumes "count_record (cs, ls) r = Inr (cs', ls')" "truthy m"
  shows "dict_get ls' m =
           (case dict_get ls m of Some l \<Rightarrow> Some l
            | None \<Rightarrow> if has_mac m r then Some (location_of r) else None)"
  using assms(1)
proof (cases rule: count_record_cases)
  case (1 mac)
  then show ?thesis using has_mac_falsy[OF 1(1,2) assms(2)] by (simp split: option.splits)
next
  case (2 mac)
  show ?thesis
  proof (cases "py_eq mac m")
    case True
    then have "dict_get ls mac = dict_get ls m" by (rule dict_get_cong)
    with True 2 show ?thesis
      by (simp add: dict_get_set has_mac_eq split: option.splits)
  next
    case False
    with 2 show ?thesis
      by (simp add: dict_get_set has_mac_eq split: option.splits)
  qed
qed

lemma step_same_keys:
  assumes "count_record (cs, ls) r = Inr (cs', ls')" "same_keys cs ls"
  shows "same_keys cs' ls'"
  using assms(1)
proof (cases rule: count_record_cases)
  case (1 mac)
  then show ?thesis using assms(2) by simp
next
  case (2 mac)
  show ?thesis
    unfolding same_keys_def
  proof
    fix m
    show "(dict_get cs' m = None) = (dict_get ls' m = None)"
      using 2 assms(2) dict_get_cong[of mac m ls]
      by (auto simp: dict_get_set same_keys_def)
  qed
qed

lemma hash_keys_dict_set:
  "map (\<lambda>kv. hash_key (fst kv)) (dict_set d k v) =
     (if dict_get d k = None then map (\<lambda>kv. hash_key (fst kv)) d @ [hash_key k]
      else map (\<lambda>kv. hash_key (fst kv)) d)"
  by (induction d) (auto split: if_splits)

lemma distinct_keys_set: "distinct_keys d \<Longrightarrow> distinct_keys (dict_set d k v)"
  unfolding distinct_keys_def hash_keys_dict_set
  by (auto simp: dict_get_None py_eq_def)

lemma step_distinct:
  assumes "count_record (cs, ls) r = Inr (cs', ls')" "distinct_keys cs"
  shows "distinct_keys cs'"
  using assms(1)
  by (cases rule: count_record_cases) (use assms(2) in \<open>auto intro: distinct_keys_set\<close>)

lemma loop_count:
  "count_records (cs, ls) rs = Inr (cs', ls') \<Longrightarrow> truthy m \<Longrightarrow>
     count_of cs' m = count_of cs m + int (occurrences m rs)"
proof (induction rs arbitrary: cs ls)
  case Nil
  then show ?case by (simp add: occurrences_def)
next
  case (Cons r rs)
  from Cons.prems(1) obtain cs1 ls1 where
    s: "count_record (cs, ls) r = Inr (cs1, ls1)" and
    t: "count_records (cs1, ls1) rs = Inr (cs', ls')"
    by (auto split: sum.splits)
  show ?case
    using step_count[OF s Cons.prems(2)] Cons.IH[OF t Cons.prems(2)]
    by (simp add: occurrences_def)
qed

lemma loop_present:
  "count_records (cs, ls) rs = Inr (cs', ls') \<Longrightarrow>
     (dict_get cs' m = None) = (dict_get cs m = None \<and> \<not> (truthy m \<and> 0 < occurrences m rs))"
proof (induction rs arbitrary: cs ls)
  case Nil
  then show ?case by (simp add: occurrences_def)
next
  case (Cons r rs)
  from Cons.prems(1) obtain cs1 ls1 where
    s: "count_record (cs, ls) r = Inr (cs1, ls1)" and
    t: "count_records (cs1, ls1) rs = Inr (cs', ls')"
    by (auto split: sum.splits)
  show ?case
    using step_present[OF s, of m] Cons.IH[OF t]
    by (auto simp: occurrences_def)
qed

lemma loop_location:
  "count_records (cs, ls) rs = Inr (cs', ls') \<Longrightarrow> truthy m \<Longrightarrow>
     dict_get ls' m = (case dict_get ls m of Some l \<Rightarrow> Some l | None \<Rightarrow> first_location m rs)"
proof (induction rs arbitrary: cs ls)
  case Nil
  then show ?case by (simp add: first_location_def split: option.splits)
next
  case (Cons r rs)
  from Cons.prems(1) obtain cs1 ls1 where
    s: "count_record (cs, ls) r = Inr (cs1, ls1)" and
    t: "count_records (cs1, ls1) rs = Inr (cs', ls')"
    by (auto split: sum.splits)
  show ?case
    using step_location[OF s Cons.prems(2)] Cons.IH[OF t Cons.prems(2)]
    by (simp add: first_location_def split: option.splits)
qed

lemma loop_same_keys:
  "count_records (cs, ls) rs = Inr (cs', ls') \<Longrightarrow> same_keys cs ls \<Longrightarrow> same_keys cs' ls'"
proof (induction rs arbitrary: cs ls)
  case Nil
  then show ?case by simp
next
  case (Cons r rs)
  from Cons.prems(1) obtain cs1 ls1 where
    s: "count_record (cs, ls) r = Inr (cs1, ls1)" and
    t: "count_records (cs1, ls1) rs = Inr (cs', ls')"
    by (auto split: sum.splits)
  show ?case
    by (rule Cons.IH[OF t step_same_keys[OF s Cons.prems(2)]])
qed

lemma loop_distinct:
  "count_records (cs, ls) rs = Inr (cs', ls') \<Longrightarrow> distinct_keys cs \<Longrightarrow> distinct_keys cs'"
proof (induction rs arbitrary: cs ls)
  case Nil
  then show ?case by simp
next
  case (Cons r rs)
  from Cons.prems(1) obtain cs1 ls1 where
    s: "count_record (cs, ls) r = Inr (cs1, ls1)" and
    t: "count_records (cs1, ls1) rs = Inr (cs', ls')"
    by (auto split: sum.splits)
  show ?case
    by (rule Cons.IH[OF t step_distinct[OF s Cons.prems(2)]])
qed

lemma dict_get_member:
  "distinct_keys d \<Longrightarrow> (k, v) \<in> set d \<Longrightarrow> dict_get d k = Some v"
  unfolding distinct_keys_def
  by (induction d) (auto simp: py_eq_def image_iff)

lemma collect_missing_ok:
  "\<forall>kv\<in>set cs. dict_get ls (fst kv) \<noteq> None \<Longrightarrow>
     collect_missing n ls cs =
       Inr (map (\<lambda>kv. (fst kv, the (dict_get ls (fst kv)))) (filter (\<lambda>kv. snd kv < n) cs))"
  by (induction cs) auto

lemma keys_have_locations:
  assumes "same_keys cs ls"
  shows "\<forall>kv\<in>set cs. dict_get ls (fst kv) \<noteq> None"
proof
  fix kv assume "kv \<in> set cs"
  then have "dict_get cs (fst kv) \<noteq> None"
    unfolding dict_get_None by (auto simp: py_eq_def)
  with assms show "dict_get ls (fst kv) \<noteq> None" by (simp add: same_keys_def)
qed

lemma once_in_dict:
  "distinct_keys cs \<Longrightarrow>
     length (filter (\<lambda>kv. snd kv < n \<and> py_eq (fst kv) m) cs) =
     (case dict_get cs m of None \<Rightarrow> 0 | Some c \<Rightarrow> if c < n then 1 else 0)"
proof (induction cs)
  case Nil
  then show ?case by simp
next
  case (Cons kv cs)
  obtain k c where kv: "kv = (k, c)" by (cases kv)
  from Cons.prems have d: "distinct_keys cs" and
    fresh: "\<forall>kv'\<in>set cs. hash_key (fst kv') \<noteq> hash_key k"
    by (force simp: distinct_keys_def kv)+
  show ?case
  proof (cases "py_eq k m")
    case True
    then have "\<forall>kv'\<in>set cs. \<not> py_eq (fst kv') m"
      using fresh by (auto simp: py_eq_def)
    then have "filter (\<lambda>kv. snd kv < n \<and> py_eq (fst kv) m) cs = []"
      by (auto simp: filter_empty_conv)
    then show ?thesis using True by (simp add: kv)
  next
    case False
    with Cons.IH[OF d] show ?thesis by (simp add: kv)
  qed
qed

lemma once_in_filter:
  "distinct_keys cs \<Longrightarrow>
     length (filter (\<lambda>kl. py_eq (fst kl) m)
        (map (\<lambda>kv. (fst kv, f (fst kv))) (filter (\<lambda>kv. snd kv < n) cs))) =
     (case dict_get cs m of None \<Rightarrow> 0 | Some c \<Rightarrow> if c < n then 1 else 0)"
  using once_in_dict[of cs n m] by (simp add: filter_map o_def)

lemma analyze_unfold:
  assumes "loads s = Loaded records" "py_iter records = Inr rs" "strip s \<noteq> []"
    "count_records ([], []) rs = Inr (cs, ls)"
  shows "analyze_sensor_data loads n s =
       Inr (map (\<lambda>kv. (fst kv, the (dict_get ls (fst kv)))) (filter (\<lambda>kv. snd kv < n) cs))"
proof -
  have sk: "same_keys cs ls"
    using loop_same_keys[OF assms(4)] by (simp add: same_keys_def)
  show ?thesis
    using assms collect_missing_ok[OF keys_have_locations[OF sk]]
    by (simp add: analyze_sensor_data_def)
qed

lemma from_empty:
  assumes "count_records ([], []) rs = Inr (cs, ls)"
  shows "same_keys cs ls" and "distinct_keys cs"
  using loop_same_keys[OF assms] loop_distinct[OF assms]
  by (simp_all add: same_keys_def distinct_keys_def)

lemma analyze_returns_cases:
  assumes "analyze_sensor_data loads n s = Inr out" "loads s = Loaded records"
    "py_iter records = Inr rs"
  obtains "out = []"
  | cs ls where "strip s \<noteq> []" "count_records ([], []) rs = Inr (cs, ls)"
  using assms
  by (auto simp: analyze_sensor_data_def split: if_splits sum.splits)

lemma well_formed_step:
  "well_formed r \<Longrightarrow> \<exists>t'. count_record t r = Inr t'"
  by (cases r) (auto simp: well_formed_def count_record_def Let_def)

lemma well_formed_loop:
  "\<forall>r\<in>set rs. well_formed r \<Longrightarrow> \<exists>t'. count_records t rs = Inr t'"
proof (induction rs arbitrary: t)
  case Nil
  then show ?case by simp
next
  case (Cons r rs)
  then obtain t1 where "count_record t r = Inr t1"
    using well_formed_step[of r t] by auto
  with Cons show ?case by simp
qed

text \<open>The records the loop gets through are the well-formed ones, and no others.\<close>

lemma returned_step: "count_record t r = Inr t' \<Longrightarrow> well_formed r"
  by (cases "record_get r ''mac'' JNull")
    (auto simp: well_formed_def count_record_def split: if_splits)

lemma returned_loop: "count_records t rs = Inr t' \<Longrightarrow> \<forall>r\<in>set rs. well_formed r"
proof (induction rs arbitrary: t)
  case Nil
  then show ?case by simp
next
  case (Cons r rs)
  from Cons.prems obtain t1 where
    s: "count_record t r = Inr t1" and l: "count_records t1 rs = Inr t'"
    by (auto split: sum.splits)
  from returned_step[OF s] Cons.IH[OF l] show ?case by simp
qed

lemma count_records_append:
  "count_records t (xs @ ys) =
     (case count_records t xs of Inl e \<Rightarrow> Inl e | Inr t' \<Rightarrow> count_records t' ys)"
  by (induction xs arbitrary: t) (auto split: sum.splits)

lemma skipped_record:
  assumes "r = JObj kvs" "map_of kvs ''mac'' \<in> {None, Some JNull, Some (JStr '''')}"
  shows "count_record t r = Inr t"
  using assms by (auto simp: count_record_def)

lemma reported_location:
  assumes "loads s = Loaded records" "py_iter records = Inr rs"
    and "analyze_sensor_data loads n s = Inr out" "kl \<in> set out"
  shows "Some (snd kl) = first_location (fst kl) rs"
  using assms(3,1,2)
proof (cases rule: analyze_returns_cases)
  case 1
  with assms(4) show ?thesis by simp
next
  case (2 cs ls)
  note u = analyze_unfold[where loads=loads and s=s and n=n, OF assms(1,2) 2] from_empty[OF 2(2)]
  from assms(3,4) u(1) have s: "snd kl = the (dict_get ls (fst kl))"
    and k: "fst kl \<in> fst ` set cs"
    by force+
  from k have "dict_get cs (fst kl) \<noteq> None"
    unfolding dict_get_None by (force simp: py_eq_def)
  then have tr: "truthy (fst kl)" using loop_present[OF 2(2), of "fst kl"] by auto
  from k keys_have_locations[OF u(2)] have "dict_get ls (fst kl) \<noteq> None" by auto
  with s loop_location[OF 2(2) tr] show ?thesis by auto
qed

subsection \<open>The report in closed form\<close>

lemma keys_dict_set:
  "map fst (dict_set d k v) = (if dict_get d k = None then map fst d @ [k] else map fst d)"
  by (induction d) (auto split: if_splits)

lemma dict_get_None_ex: "(dict_get d k = None) = (\<not> list_ex (\<lambda>a. py_eq a k) (map fst d))"
  by (induction d) (auto split: if_splits)

lemma collect_keys_append:
  "collect_keys acc (xs @ ys) = collect_keys (collect_keys acc xs) ys"
  by (induction xs arbitrary: acc) auto

lemma counted_macs_Cons: "counted_macs (r # rs) = counted_macs [r] @ counted_macs rs"
  by (auto split: sum.splits)

lemma step_keys:
  assumes "count_record (cs, ls) r = Inr (cs', ls')"
  shows "map fst cs' = collect_keys (map fst cs) (counted_macs [r])"
  using assms
proof (cases rule: count_record_cases)
  case (1 mac)
  then show ?thesis by simp
next
  case (2 mac)
  then show ?thesis by (simp add: keys_dict_set dict_get_None_ex)
qed

lemma loop_keys:
  "count_records (cs, ls) rs = Inr (cs', ls') \<Longrightarrow>
     map fst cs' = collect_keys (map fst cs) (counted_macs rs)"
proof (induction rs arbitrary: cs ls)
  case Nil
  then show ?case by simp
next
  case (Cons r rs)
  from Cons.prems obtain cs1 ls1 where
    s: "count_record (cs, ls) r = Inr (cs1, ls1)" and
    t: "count_records (cs1, ls1) rs = Inr (cs', ls')"
    by (auto split: sum.splits)
  have "map fst cs' = collect_keys (collect_keys (map fst cs) (counted_macs [r])) (counted_macs rs)"
    using Cons.IH[OF t] step_keys[OF s] by simp
  then show ?case
    by (subst counted_macs_Cons) (simp only: collect_keys_append)
qed

lemma collect_keep:
  "collect_keys acc ks =
     acc @ keep_first (filter (\<lambda>k. \<not> list_ex (\<lambda>a. py_eq a k) acc) ks)"
proof (induction ks arbitrary: acc)
  case Nil
  then show ?case by simp
next
  case (Cons k ks)
  show ?case
  proof (cases "list_ex (\<lambda>a. py_eq a k) acc")
    case True
    then show ?thesis using Cons.IH[of acc] by simp
  next
    case False
    have "filter (\<lambda>k'. \<not> list_ex (\<lambda>a. py_eq a k') (acc @ [k])) ks =
          filter (\<lambda>k'. \<not> py_eq k k') (filter (\<lambda>k'. \<not> list_ex (\<lambda>a. py_eq a k') acc) ks)"
      by (auto intro: filter_cong)
    with False show ?thesis using Cons.IH[of "acc @ [k]"] by simp
  qed
qed

lemma keys_first_seen:
  assumes "count_records ([], []) rs = Inr (cs, ls)"
  shows "map fst cs = first_seen rs"
  using loop_keys[OF assms] by (simp add: collect_keep first_seen_def)

lemma entries_of_keys:
  assumes t: "count_records ([], []) rs = Inr (cs, ls)" and kv: "kv \<in> set cs"
  shows "snd kv = int (occurrences (fst kv) rs)"
    and "the (dict_get ls (fst kv)) =
           (case first_location (fst kv) rs of None \<Rightarrow> JStr ''unknown location'' | Some l \<Rightarrow> l)"
proof -
  note inv = from_empty[OF t]
  have g: "dict_get cs (fst kv) = Some (snd kv)"
    using dict_get_member[OF inv(2), of "fst kv" "snd kv"] kv by simp
  then have tr: "truthy (fst kv)" using loop_present[OF t, of "fst kv"] by auto
  show "snd kv = int (occurrences (fst kv) rs)"
    using loop_count[OF t tr] g by (simp add: count_of_def)
  have "dict_get ls (fst kv) \<noteq> None" using keys_have_locations[OF inv(1)] kv by blast
  then show "the (dict_get ls (fst kv)) =
           (case first_location (fst kv) rs of None \<Rightarrow> JStr ''unknown location'' | Some l \<Rightarrow> l)"
    using loop_location[OF t tr] by auto
qed

lemma report_of_tally:
  assumes t: "count_records ([], []) rs = Inr (cs, ls)"
  shows "map (\<lambda>kv. (fst kv, the (dict_get ls (fst kv)))) (filter (\<lambda>kv. snd kv < n) cs) =
         expected_report n rs"
proof -
  have a: "filter (\<lambda>kv. snd kv < n) cs = filter (\<lambda>kv. int (occurrences (fst kv) rs) < n) cs"
    using entries_of_keys(1)[OF t] by (auto intro: filter_cong)
  have b: "map (\<lambda>kv. (fst kv, the (dict_get ls (fst kv)))) (filter (\<lambda>kv. int (occurrences (fst kv) rs) < n) cs) =
      map (\<lambda>kv. (fst kv, case first_location (fst kv) rs of None \<Rightarrow> JStr ''unknown location'' | Some l \<Rightarrow> l))
        (filter (\<lambda>kv. int (occurrences (fst kv) rs) < n) cs)"
    using entries_of_keys(2)[OF t] by (auto intro: map_cong)
  have c: "expected_report n rs =
      map (\<lambda>kv. (fst kv, case first_location (fst kv) rs of None \<Rightarrow> JStr ''unknown location'' | Some l \<Rightarrow> l))
        (filter (\<lambda>kv. int (occurrences (fst kv) rs) < n) cs)"
    unfolding expected_report_def keys_first_seen[OF t, symmetric]
    by (simp add: filter_map o_def)
  show ?thesis using a b c by simp
qed

subsection \<open>The sample inputs, evaluated\<close>

lemma strip_sample: "strip sample_text \<noteq> []" "strip blank_text \<noteq> []"
  "strip bare_text \<noteq> []" "strip lone_text \<noteq> []"
  by (simp_all add: sample_text_def blank_text_def bare_text_def lone_text_def strip_def is_space_def)

lemma loads_sample:
  "sample_loads sample_text = Loaded (JArr sample_rows)"
  "sample_loads blank_text = Loaded (JArr blank_rows)"
  "sample_loads bare_text = Loaded (JArr bare_rows)"
  "sample_loads lone_text = Loaded (JArr lone_rows)"
  by (simp_all add: sample_loads_def sample_text_def blank_text_def bare_text_def lone_text_def)

lemma analyze_sample:
  "analyze_sensor_data sample_loads 2 sample_text = Inr [(JStr ''B'', JStr ''cellar'')]"
  by (simp add: analyze_sensor_data_def strip_sample loads_sample sample_rows_def
      count_record_def py_eq_def)

lemma analyze_blank: "analyze_sensor_data sample_loads 2 blank_text = Inr []"
  by (simp add: analyze_sensor_data_def strip_sample loads_sample blank_rows_def
      count_record_def py_eq_def)

lemma analyze_lone:
  "analyze_sensor_data sample_loads 2 lone_text = Inr [(JStr ''C'', JStr ''unknown location'')]"
  by (simp add: analyze_sensor_data_def strip_sample loads_sample lone_rows_def
      count_record_def py_eq_def)

lemma analyze_bare:
  "analyze_sensor_data sample_loads 2 bare_text = Inr [(JStr ''C'', JStr ''unknown location'')]"
  by (simp add: analyze_sensor_data_def strip_sample loads_sample bare_rows_def
      count_record_def py_eq_def)

lemma occurrences_sample:
  "occurrences (JStr ''A'') sample_rows = 2"
  "occurrences (JStr ''B'') sample_rows = 1"
  "occurrences (JStr '''') blank_rows = 1"
  by (simp_all add: occurrences_def has_mac_def sample_rows_def blank_rows_def py_eq_def)

lemma strip_deep: "strip deep_text \<noteq> []"
  by (simp add: strip_def deep_text_def is_space_def dropWhile_replicate)

lemma shorter_than_deep: "length t < 100000 \<Longrightarrow> t \<noteq> deep_text"
  by (auto simp: deep_text_def)

lemma deep_differs:
  "deep_text \<noteq> sample_text" "deep_text \<noteq> blank_text"
  "deep_text \<noteq> bare_text" "deep_text \<noteq> lone_text"
  using shorter_than_deep[of sample_text] shorter_than_deep[of blank_text]
    shorter_than_deep[of bare_text] shorter_than_deep[of lone_text]
  by (auto simp: sample_text_def blank_text_def bare_text_def lone_text_def)

lemma loads_deep: "sample_loads deep_text = Raises RecursionError"
  by (simp add: sample_loads_def deep_differs)

lemma expected_sample:
  "expected_report 3 sample_rows = [(JStr ''A'', JStr ''wine''), (JStr ''B'', JStr ''cellar'')]"
  by (simp add: expected_report_def first_seen_def sample_rows_def occurrences_def has_mac_def
      first_location_def location_of_def py_eq_def)

lemma loads_other: "other_loads sample_text = Loaded (JArr sample_rows)"
  by (simp add: other_loads_def)

subsection \<open>The claims about the analyzer\<close>

text \<open>
  Claim C1. Whenever the analyzer returns a list, an identifier whose occurrence count
  among the parsed records is at least \<open>MIN_CHECKINS\<close> is not a key of any entry of
  that list.
\<close>

theorem enough_checkins_not_reported:
  assumes "loads s = Loaded records" "py_iter records = Inr rs"
    and "analyze_sensor_data loads n s = Inr out"
    and "n \<le> int (occurrences m rs)"
  shows "\<forall>kl\<in>set out. \<not> py_eq (fst kl) m"
  using assms(3,1,2)
proof (cases rule: analyze_returns_cases)
  case 1
  then show ?thesis by simp
next
  case (2 cs ls)
  note u = analyze_unfold[where loads=loads and s=s and n=n, OF assms(1,2) 2] from_empty[OF 2(2)]
  show ?thesis
  proof
    fix kl assume kl: "kl \<in> set out"
    show "\<not> py_eq (fst kl) m"
    proof
      assume eq: "py_eq (fst kl) m"
      from kl u(1) assms(3) obtain c where c: "(fst kl, c) \<in> set cs" "c < n"
        by auto
      have "dict_get cs (fst kl) = Some c" by (rule dict_get_member[OF u(3) c(1)])
      then have g: "dict_get cs m = Some c" using dict_get_cong[OF eq, of cs] by simp
      then have "truthy m" using loop_present[OF 2(2), of m] by auto
      from loop_count[OF 2(2) this] g have "c = int (occurrences m rs)"
        by (simp add: count_of_def)
      with c(2) assms(4) show False by simp
    qed
  qed
qed

theorem enough_checkins_not_reported_witness:
  "sample_loads sample_text = Loaded (JArr sample_rows)
   \<and> py_iter (JArr sample_rows) = Inr sample_rows
   \<and> analyze_sensor_data sample_loads 2 sample_text = Inr [(JStr ''B'', JStr ''cellar'')]
   \<and> 2 \<le> int (occurrences (JStr ''A'') sample_rows)
   \<and> \<not> py_eq (fst (JStr ''B'', JStr ''cellar'')) (JStr ''A'')"
proof -
  have h2: "py_iter (JArr sample_rows) = Inr sample_rows" by simp
  have h4: "2 \<le> int (occurrences (JStr ''A'') sample_rows)"
    by (simp add: occurrences_sample)
  show ?thesis
    using enough_checkins_not_reported[where loads=sample_loads and s=sample_text, OF loads_sample(1) h2 analyze_sample h4]
      loads_sample(1) h2 analyze_sample h4
    by simp
qed

text \<open>
  Claim C2, amended. The records are JSON objects whose \<open>mac\<close> is skipped or can be
  a dictionary key (on any other record the loop raises, see \<open>returned_loop\<close>), and
  the identifier is one the loop counts (it is true as a condition). If it occurs,
  with fewer than \<open>MIN_CHECKINS\<close> occurrences, then the analyzer returns a list that
  holds it in exactly one entry, and that entry carries the location of its first
  occurrence in input order.
\<close>

theorem few_checkins_reported_once:
  assumes "loads s = Loaded records" "py_iter records = Inr rs" "strip s \<noteq> []"
    and "\<forall>r\<in>set rs. well_formed r"
    and "truthy m" "0 < occurrences m rs" "int (occurrences m rs) < n"
  shows "\<exists>out. analyze_sensor_data loads n s = Inr out
           \<and> length (filter (\<lambda>kl. py_eq (fst kl) m) out) = 1
           \<and> (\<forall>kl\<in>set out. py_eq (fst kl) m \<longrightarrow> Some (snd kl) = first_location m rs)"
proof -
  obtain cs ls where t: "count_records ([], []) rs = Inr (cs, ls)"
    using well_formed_loop[OF assms(4), of "([], [])"] by (metis surj_pair)
  note u = analyze_unfold[where loads=loads and s=s and n=n, OF assms(1,2,3) t] from_empty[OF t]
  have cm: "count_of cs m = int (occurrences m rs)"
    using loop_count[OF t assms(5)] by (simp add: count_of_def)
  have "dict_get cs m \<noteq> None"
    using loop_present[OF t, of m] assms(5,6) by simp
  with cm assms(7) obtain c where g: "dict_get cs m = Some c" "c < n"
    by (auto simp: count_of_def)
  have lm: "dict_get ls m = first_location m rs"
    using loop_location[OF t assms(5)] by simp
  have once: "length (filter (\<lambda>kl. py_eq (fst kl) m)
      (map (\<lambda>kv. (fst kv, the (dict_get ls (fst kv)))) (filter (\<lambda>kv. snd kv < n) cs))) = 1"
    using once_in_filter[OF u(3), of m "\<lambda>k. the (dict_get ls k)" n] g by simp
  have loc: "\<forall>kl\<in>set (map (\<lambda>kv. (fst kv, the (dict_get ls (fst kv)))) (filter (\<lambda>kv. snd kv < n) cs)).
      py_eq (fst kl) m \<longrightarrow> Some (snd kl) = first_location m rs"
  proof (intro ballI impI)
    fix kl
    assume kl: "kl \<in> set (map (\<lambda>kv. (fst kv, the (dict_get ls (fst kv)))) (filter (\<lambda>kv. snd kv < n) cs))"
      and eq: "py_eq (fst kl) m"
    from kl have s: "snd kl = the (dict_get ls (fst kl))" and k: "fst kl \<in> fst ` set cs"
      by force+
    from k keys_have_locations[OF u(2)] have "dict_get ls (fst kl) \<noteq> None" by auto
    then show "Some (snd kl) = first_location m rs"
      using s lm dict_get_cong[OF eq, of ls] by auto
  qed
  from u(1) once loc show ?thesis by blast
qed

theorem few_checkins_reported_once_witness:
  "sample_loads sample_text = Loaded (JArr sample_rows)
   \<and> py_iter (JArr sample_rows) = Inr sample_rows
   \<and> strip sample_text \<noteq> []
   \<and> list_all well_formed sample_rows
   \<and> truthy (JStr ''B'')
   \<and> 0 < occurrences (JStr ''B'') sample_rows
   \<and> int (occurrences (JStr ''B'') sample_rows) < 2
   \<and> analyze_sensor_data sample_loads 2 sample_text = Inr [(JStr ''B'', JStr ''cellar'')]
   \<and> length (filter (\<lambda>kl. py_eq (fst kl) (JStr ''B'')) [(JStr ''B'', JStr ''cellar'')]) = 1
   \<and> Some (snd (JStr ''B'', JStr ''cellar'')) = first_location (JStr ''B'') sample_rows"
proof -
  have h2: "py_iter (JArr sample_rows) = Inr sample_rows" by simp
  have h4: "\<forall>r\<in>set sample_rows. well_formed r"
    by (simp add: sample_rows_def well_formed_def)
  have h5: "truthy (JStr ''B'')" by simp
  have h6: "0 < occurrences (JStr ''B'') sample_rows" by (simp add: occurrences_sample)
  have h7: "int (occurrences (JStr ''B'') sample_rows) < 2" by (simp add: occurrences_sample)
  show ?thesis
    using few_checkins_reported_once[where loads=sample_loads and s=sample_text,
        OF loads_sample(1) h2 strip_sample(1) h4 h5 h6 h7]
      loads_sample(1) h2 strip_sample(1) h4 h5 h6 h7
    by (auto simp: analyze_sample py_eq_def list_all_iff)
qed

text \<open>
  As the claim is written it covers every \<open>mac\<close> value of the records. The empty
  string occurs once in the sample below, fewer times than the threshold 2, and the
  analyzer reports nothing: \<open>if not mac: continue\<close> skips the record.
\<close>

theorem empty_mac_not_reported_counterexample:
  "sample_loads blank_text = Loaded (JArr blank_rows)
   \<and> occurrences (JStr '''') blank_rows = 1
   \<and> analyze_sensor_data sample_loads 2 blank_text = Inr []"
  by (simp add: loads_sample occurrences_sample analyze_blank)

text \<open>
  Claim C3, amended. When \<open>json.loads\<close> rejects the text with \<open>JSONDecodeError\<close>,
  the analyzer returns the empty list and raises nothing. When \<open>json.loads\<close> raises
  an exception of another class on a text that is not blank, the analyzer raises it.
\<close>

theorem decode_error_gives_empty:
  "(loads s = JSONDecodeError \<longrightarrow> analyze_sensor_data loads n s = Inr [])
   \<and> (strip s \<noteq> [] \<and> loads s = Raises e \<longrightarrow> analyze_sensor_data loads n s = Inl e)"
  by (simp add: analyze_sensor_data_def)

theorem decode_error_gives_empty_witness:
  \<open>sample_loads ''[{"mac":'' = JSONDecodeError
   \<and> analyze_sensor_data sample_loads 2 ''[{"mac":'' = Inr []
   \<and> strip deep_text \<noteq> []
   \<and> sample_loads deep_text = Raises RecursionError
   \<and> analyze_sensor_data sample_loads 2 deep_text = Inl RecursionError\<close>
proof -
  have h: \<open>sample_loads ''[{"mac":'' = JSONDecodeError\<close>
    using shorter_than_deep[of \<open>''[{"mac":''\<close>]
    by (simp add: sample_loads_def sample_text_def blank_text_def bare_text_def lone_text_def)
  show ?thesis
    using decode_error_gives_empty[where loads=sample_loads and s=\<open>''[{"mac":''\<close> and n=2]
      decode_error_gives_empty[where loads=sample_loads and s=deep_text and e=RecursionError and n=2]
      h strip_deep loads_deep
    by simp
qed

text \<open>
  As the claim is written it covers every text that cannot be parsed. On one hundred
  thousand opening brackets \<open>json.loads\<close> raises \<open>RecursionError\<close>, which
  \<open>except json.JSONDecodeError\<close> does not catch: the analyzer raises.
\<close>

theorem deep_nesting_raises_counterexample:
  "strip deep_text \<noteq> []
   \<and> sample_loads deep_text = Raises RecursionError
   \<and> analyze_sensor_data sample_loads 2 deep_text = Inl RecursionError"
  by (simp add: strip_deep loads_deep analyze_sensor_data_def)

text \<open>
  Claim C9. Two runs on the same text with the same \<open>MIN_CHECKINS\<close>, in which
  \<open>json.loads\<close> makes the same of that text, end the same way. Where the text parses
  to records the loop can process, both return the list that the records alone fix:
  the identifiers with too few occurrences, in the order in which each first occurs in
  the input, each with its first location. Nothing else enters the result; the hash of
  a string, which differs from process to process, does not, since a dictionary
  iterates in insertion order.
\<close>

theorem analyzer_deterministic:
  assumes "s = s'" "n = n'" "loads s = loads' s'"
  shows "analyze_sensor_data loads n s = analyze_sensor_data loads' n' s'
     \<and> (strip s \<noteq> [] \<and> loads s = Loaded records \<and> py_iter records = Inr rs
          \<and> (\<forall>r\<in>set rs. well_formed r) \<longrightarrow>
        analyze_sensor_data loads n s = Inr (expected_report n rs)
        \<and> analyze_sensor_data loads' n' s' = Inr (expected_report n rs))"
proof (intro conjI impI)
  show same: "analyze_sensor_data loads n s = analyze_sensor_data loads' n' s'"
    using assms by (simp add: analyze_sensor_data_def)
  assume h: "strip s \<noteq> [] \<and> loads s = Loaded records \<and> py_iter records = Inr rs
          \<and> (\<forall>r\<in>set rs. well_formed r)"
  then obtain cs ls where t: "count_records ([], []) rs = Inr (cs, ls)"
    using well_formed_loop[of rs "([], [])"] by (metis surj_pair)
  from h have h1: "loads s = Loaded records" and h2: "py_iter records = Inr rs"
    and h3: "strip s \<noteq> []" by simp_all
  show first: "analyze_sensor_data loads n s = Inr (expected_report n rs)"
    using analyze_unfold[where loads=loads and s=s and n=n, OF h1 h2 h3 t] report_of_tally[OF t]
    by simp
  show "analyze_sensor_data loads' n' s' = Inr (expected_report n rs)"
    using first same by simp
qed

theorem analyzer_deterministic_witness:
  "sample_text = sample_text \<and> (3::int) = 3
   \<and> sample_loads sample_text = other_loads sample_text
   \<and> strip sample_text \<noteq> []
   \<and> sample_loads sample_text = Loaded (JArr sample_rows)
   \<and> py_iter (JArr sample_rows) = Inr sample_rows
   \<and> list_all well_formed sample_rows
   \<and> expected_report 3 sample_rows = [(JStr ''A'', JStr ''wine''), (JStr ''B'', JStr ''cellar'')]
   \<and> analyze_sensor_data sample_loads 3 sample_text =
        Inr [(JStr ''A'', JStr ''wine''), (JStr ''B'', JStr ''cellar'')]
   \<and> analyze_sensor_data other_loads 3 sample_text =
        Inr [(JStr ''A'', JStr ''wine''), (JStr ''B'', JStr ''cellar'')]"
proof -
  have h: "sample_loads sample_text = other_loads sample_text"
    by (simp add: loads_sample loads_other)
  have w: "\<forall>r\<in>set sample_rows. well_formed r"
    by (simp add: sample_rows_def well_formed_def)
  have p: "py_iter (JArr sample_rows) = Inr sample_rows" by simp
  note t = analyzer_deterministic[where loads=sample_loads and loads'=other_loads
      and s=sample_text and s'=sample_text and n=3 and n'=3
      and records="JArr sample_rows" and rs=sample_rows, OF refl refl h]
  from t strip_sample(1) loads_sample(1) p w
  have "analyze_sensor_data sample_loads 3 sample_text = Inr (expected_report 3 sample_rows)
      \<and> analyze_sensor_data other_loads 3 sample_text = Inr (expected_report 3 sample_rows)"
    by blast
  then show ?thesis
    using h w p strip_sample(1) loads_sample(1) expected_sample by (simp add: list_all_iff)
qed

text \<open>
  Claim C10. A record whose \<open>mac\<close> is absent, \<open>null\<close> or the empty string leaves both
  dictionaries as they were, and the analyzer returns the same with the record as
  without it. An entry of the output whose identifier first occurs in a record without
  a \<open>location\<close> field carries the string \<open>unknown location\<close>.
\<close>

theorem empty_mac_skipped_default_location:
  "(r = JObj kvs \<and> map_of kvs ''mac'' \<in> {None, Some JNull, Some (JStr '''')} \<longrightarrow>
      count_record t r = Inr t \<and>
      (loads s = Loaded (JArr (xs @ r # ys)) \<and> loads s' = Loaded (JArr (xs @ ys))
         \<and> strip s \<noteq> [] \<and> strip s' \<noteq> [] \<longrightarrow>
       analyze_sensor_data loads n s = analyze_sensor_data loads n s'))
   \<and> (loads s = Loaded records \<and> py_iter records = Inr rs
        \<and> analyze_sensor_data loads n s = Inr out \<and> kl \<in> set out
        \<and> filter (has_mac (fst kl)) rs = JObj kvs' # rest \<and> map_of kvs' ''location'' = None \<longrightarrow>
      snd kl = JStr ''unknown location'')"
proof (intro conjI impI)
  assume a: "r = JObj kvs \<and> map_of kvs ''mac'' \<in> {None, Some JNull, Some (JStr '''')}"
  then show skip: "count_record t r = Inr t" for t
    using skipped_record[of r kvs t] by blast
  assume b: "loads s = Loaded (JArr (xs @ r # ys)) \<and> loads s' = Loaded (JArr (xs @ ys))
         \<and> strip s \<noteq> [] \<and> strip s' \<noteq> []"
  have "count_records ([], []) (xs @ r # ys) = count_records ([], []) (xs @ ys)"
    by (simp add: count_records_append skip split: sum.splits)
  with b show "analyze_sensor_data loads n s = analyze_sensor_data loads n s'"
    by (simp add: analyze_sensor_data_def)
next
  assume c: "loads s = Loaded records \<and> py_iter records = Inr rs
        \<and> analyze_sensor_data loads n s = Inr out \<and> kl \<in> set out
        \<and> filter (has_mac (fst kl)) rs = JObj kvs' # rest \<and> map_of kvs' ''location'' = None"
  then have "Some (snd kl) = first_location (fst kl) rs"
    using reported_location[of loads s records rs n out kl] by blast
  with c show "snd kl = JStr ''unknown location''"
    by (simp add: first_location_def location_of_def)
qed

theorem empty_mac_skipped_default_location_witness:
  "(JObj [(''location'', JStr ''attic'')] = JObj [(''location'', JStr ''attic'')]
      \<and> map_of [(''location'', JStr ''attic'')] ''mac'' \<in> {None, Some JNull, Some (JStr '''')})
   \<and> count_record ([], []) (JObj [(''location'', JStr ''attic'')]) = Inr ([], [])
   \<and> analyze_sensor_data sample_loads 2 bare_text = analyze_sensor_data sample_loads 2 lone_text
   \<and> analyze_sensor_data sample_loads 2 lone_text = Inr [(JStr ''C'', JStr ''unknown location'')]
   \<and> filter (has_mac (JStr ''C'')) lone_rows = JObj [(''mac'', JStr ''C'')] # []
   \<and> map_of [(''mac'', JStr ''C'')] ''location'' = None
   \<and> snd (JStr ''C'', JStr ''unknown location'') = JStr ''unknown location''"
proof -
  have a: "JObj [(''location'', JStr ''attic'')] = JObj [(''location'', JStr ''attic'')]
      \<and> map_of [(''location'', JStr ''attic'')] ''mac'' \<in> {None, Some JNull, Some (JStr '''')}"
    by simp
  have b: "sample_loads bare_text = Loaded (JArr ([] @ JObj [(''location'', JStr ''attic'')] # lone_rows))
      \<and> sample_loads lone_text = Loaded (JArr ([] @ lone_rows))
      \<and> strip bare_text \<noteq> [] \<and> strip lone_text \<noteq> []"
    by (simp add: loads_sample strip_sample bare_rows_def lone_rows_def)
  have f: "filter (has_mac (JStr ''C'')) lone_rows = JObj [(''mac'', JStr ''C'')] # []"
    by (simp add: lone_rows_def has_mac_def py_eq_def)
  have c: "sample_loads lone_text = Loaded (JArr lone_rows) \<and> py_iter (JArr lone_rows) = Inr lone_rows
      \<and> analyze_sensor_data sample_loads 2 lone_text = Inr [(JStr ''C'', JStr ''unknown location'')]
      \<and> (JStr ''C'', JStr ''unknown location'') \<in> set [(JStr ''C'', JStr ''unknown location'')]
      \<and> filter (has_mac (fst (JStr ''C'', JStr ''unknown location''))) lone_rows = JObj [(''mac'', JStr ''C'')] # []
      \<and> map_of [(''mac'', JStr ''C'')] ''location'' = None"
    using f by (simp add: loads_sample analyze_lone)
  note t = empty_mac_skipped_default_location[where r="JObj [(''location'', JStr ''attic'')]" and kvs="[(''location'', JStr ''attic'')]"
      and t="([], [])" and loads=sample_loads and s=bare_text and s'=lone_text and xs="[]" and ys=lone_rows
      and n=2]
  from t a b have p1: "count_record ([], []) (JObj [(''location'', JStr ''attic'')]) = Inr ([], [])
     \<and> analyze_sensor_data sample_loads 2 bare_text = analyze_sensor_data sample_loads 2 lone_text"
    by blast
  note u = empty_mac_skipped_default_location[where loads=sample_loads and s=lone_text and records="JArr lone_rows"
      and rs=lone_rows and n=2 and out="[(JStr ''C'', JStr ''unknown location'')]"
      and kl="(JStr ''C'', JStr ''unknown location'')" and kvs'="[(''mac'', JStr ''C'')]"
      and rest="[]"]
  from u c have p2: "snd (JStr ''C'', JStr ''unknown location'') = JStr ''unknown location''"
    by blast
  show ?thesis using p1 p2 a c f by simp
qed

section \<open>Properties of the two workflows\<close>

lemma posts_append: "posts (xs @ ys) = posts xs @ posts ys"
  by (induction xs rule: posts.induct) auto

lemma configured_iff:
  "(missing_vars env = []) =
     (\<not> unset (NTFY_HOST env) \<and> \<not> unset (NTFY_SENSOR_TOPIC env) \<and> \<not> unset (SSH_HOST env)
      \<and> \<not> unset (SSH_USERNAME env) \<and> \<not> unset (DATABASE_PATH env))"
  by (auto simp: missing_vars_def required_vars_def)

lemma posts_send_notification:
  assumes "missing_vars env = []"
  shows "\<exists>q. posts (send_notification env response title message emojis priority) = [q]
           \<and> map_of (headers q) ''Priority'' = Some priority \<and> body q = message"
  using assms
  by (cases response) (auto simp: configured_iff send_notification_def Let_def)


lemma priority_of_digit:
  "map_of (headers q) ''Priority'' = Some ''4'' \<Longrightarrow> priority_of q = Some 4"
  "map_of (headers q) ''Priority'' = Some ''3'' \<Longrightarrow> priority_of q = Some 3"
  "map_of (headers q) ''Priority'' = Some ''2'' \<Longrightarrow> priority_of q = Some 2"
  by (simp_all add: priority_of_def)

lemma sample_env_configured: "missing_vars sample_env = []"
  by (simp add: missing_vars_def required_vars_def sample_env_def unset_def)

text \<open>
  Claim C4, amended. With the configuration complete, when the remote query fails with
  \<open>asyncssh.Error\<close> the run is exactly: the start line, one query, the error logged by
  \<open>execute_sql_query\<close>, the error logged by the handler of \<open>main\<close>, exit code 1.
  No notification is sent, nothing is parsed (the run is the same for every
  \<open>json.loads\<close>), and the query is not repeated.
\<close>

theorem ssh_failure_is_fatal:
  assumes "missing_vars env = []" "ssh w = SshError e"
  shows "sensors_main loads py_str env w =
           \<lparr>events =
              [Log INFO (''Querying for data since: '' @ since w),
               SshRun (SSH_HOST env) (SSH_USERNAME env)
                 (''sqlite3 -json '' @ fmt_env (DATABASE_PATH env) @ [CHR 0x20, CHR 0x22]
                  @ build_query (cutoff w) @ [CHR 0x22]),
               Log ERROR (''SSH connection error: '' @ e),
               Log ERROR ''An unhandled error occurred during script execution.''],
            exit_code = 1\<rparr>"
  using assms by (simp add: sensors_main_def execute_sql_query_def unhandled_def Let_def)

theorem ssh_failure_is_fatal_witness:
  "missing_vars sample_env = []
   \<and> ssh (sample_world (SshError ''Connection lost'')) = SshError ''Connection lost''
   \<and> sensors_main sample_loads show_value sample_env (sample_world (SshError ''Connection lost'')) =
       \<lparr>events =
          [Log INFO ''Querying for data since: 2025-06-30 00:50:00.000000+00:00'',
           SshRun (Some ''pi.example'') (Some ''pi'')
             (''sqlite3 -json /srv/sensors.db'' @ [CHR 0x20, CHR 0x22]
              @ build_query ''2025-06-30 00:50:00'' @ [CHR 0x22]),
           Log ERROR ''SSH connection error: Connection lost'',
           Log ERROR ''An unhandled error occurred during script execution.''],
        exit_code = 1\<rparr>"
proof -
  have h: "ssh (sample_world (SshError ''Connection lost'')) = SshError ''Connection lost''"
    by (simp add: sample_world_def)
  show ?thesis
    using ssh_failure_is_fatal[OF sample_env_configured h, of sample_loads show_value] sample_env_configured h
    by (simp add: sample_env_def sample_world_def fmt_env_def)
qed

text \<open>
  As the claim is written the failure is also reported by a notification. The run
  below posts none: the handler of \<open>main\<close> logs and calls \<open>sys.exit(1)\<close>.
\<close>

theorem ssh_failure_sends_nothing_counterexample:
  "missing_vars sample_env = []
   \<and> posts (events (sensors_main sample_loads show_value sample_env
        (sample_world (SshError ''Connection lost'')))) = []
   \<and> exit_code (sensors_main sample_loads show_value sample_env
        (sample_world (SshError ''Connection lost''))) = 1"
  by (simp add: sample_env_configured sensors_main_def execute_sql_query_def unhandled_def
      sample_world_def Let_def)

text \<open>
  Claim C5. On a text that is empty after \<open>strip()\<close> the analyzer returns the empty
  list. With the configuration complete, a run whose query prints such a text posts
  one notification, and a run whose analysis finds sensors missing posts one
  notification too; the first asks for a higher priority than the second (4 against 2)
  and carries another message.
\<close>

theorem no_data_is_escalated:
  assumes "missing_vars env = []"
    and "strip s = []" "ssh w = SshStdout s"
    and "ssh w' = SshStdout s'" "strip s' \<noteq> []"
    and "analyze_sensor_data loads (MIN_CHECKINS env) s' = Inr out" "out \<noteq> []"
  shows "analyze_sensor_data loads n s = Inr []
     \<and> (\<exists>q q' p p'.
           posts (events (sensors_main loads py_str env w)) = [q]
         \<and> posts (events (sensors_main loads py_str env w')) = [q']
         \<and> priority_of q = Some p \<and> priority_of q' = Some p' \<and> p' < p
         \<and> body q \<noteq> body q')"
proof -
  have a: "analyze_sensor_data loads n s = Inr []"
    using assms(2) by (simp add: analyze_sensor_data_def)
  let ?m = "''No sensor data received in the last '' @ str_int (MINUTES_AGO env)
            @ '' minutes. All sensors may be offline.''"
  obtain q where q: "posts (send_notification env (http w) ''Sensor Check-in Alert'' ?m
        [''warning'', ''thermometer''] ''4'') = [q]"
      "map_of (headers q) ''Priority'' = Some ''4''" "body q = ?m"
    using posts_send_notification[OF assms(1)] by blast
  have r: "posts (events (sensors_main loads py_str env w)) = [q]"
    using assms(1,2,3) q(1)
    by (simp add: sensors_main_def execute_sql_query_def Let_def posts_append)
  let ?m' = "''Missing check-ins detected for '' @ str_nat (length out) @ '' sensor(s):''
        @ [CHR 0x0A]
        @ join [CHR 0x0A] (map (\<lambda>ml. py_str (fst ml) @ '' ('' @ py_str (snd ml) @ '')'') out)"
  obtain q' where q': "posts (send_notification env (http w') ''Sensor Check-in Alert'' ?m'
        [''warning'', ''thermometer''] ''2'') = [q']"
      "map_of (headers q') ''Priority'' = Some ''2''" "body q' = ?m'"
    using posts_send_notification[OF assms(1)] by blast
  have r': "posts (events (sensors_main loads py_str env w')) = [q']"
    using assms(1,4,5,6,7) q'(1)
    by (simp add: sensors_main_def execute_sql_query_def Let_def posts_append)
  have "body q \<noteq> body q'" using q(3) q'(3) by simp
  with r r' priority_of_digit(1)[OF q(2)] priority_of_digit(3)[OF q'(2)] a
  show ?thesis by force
qed

theorem no_data_is_escalated_witness:
  "missing_vars sample_env = []
   \<and> strip ''  '' = []
   \<and> ssh (sample_world (SshStdout ''  '')) = SshStdout ''  ''
   \<and> ssh (sample_world (SshStdout sample_text)) = SshStdout sample_text
   \<and> strip sample_text \<noteq> []
   \<and> analyze_sensor_data sample_loads (MIN_CHECKINS sample_env) sample_text =
        Inr [(JStr ''B'', JStr ''cellar'')]
   \<and> [(JStr ''B'', JStr ''cellar'')] \<noteq> []
   \<and> analyze_sensor_data sample_loads 2 ''  '' = Inr []
   \<and> (\<exists>q q' p p'.
         posts (events (sensors_main sample_loads show_value sample_env
                  (sample_world (SshStdout ''  '')))) = [q]
       \<and> posts (events (sensors_main sample_loads show_value sample_env
                  (sample_world (SshStdout sample_text)))) = [q']
       \<and> priority_of q = Some p \<and> priority_of q' = Some p' \<and> p' < p
       \<and> body q \<noteq> body q')"
proof -
  have h2: "strip ''  '' = []" by (simp add: strip_def is_space_def)
  have h3: "ssh (sample_world (SshStdout ''  '')) = SshStdout ''  ''"
    by (simp add: sample_world_def)
  have h4: "ssh (sample_world (SshStdout sample_text)) = SshStdout sample_text"
    by (simp add: sample_world_def)
  have h6: "analyze_sensor_data sample_loads (MIN_CHECKINS sample_env) sample_text =
        Inr [(JStr ''B'', JStr ''cellar'')]"
    by (simp add: sample_env_def analyze_sample)
  have h7: "[(JStr ''B'', JStr ''cellar'')] \<noteq> []" by simp
  show ?thesis
    using no_data_is_escalated[where loads=sample_loads and s="''  ''" and s'=sample_text and n=2
        and py_str=show_value,
        OF sample_env_configured h2 h3 h4 strip_sample(1) h6 h7]
      sample_env_configured h2 h3 h4 strip_sample(1) h6
    by simp
qed

text \<open>
  Claim C6. If one of \<open>NTFY_HOST\<close>, \<open>NTFY_SENSOR_TOPIC\<close>, \<open>SSH_HOST\<close>,
  \<open>SSH_USERNAME\<close>, \<open>DATABASE_PATH\<close> is not set or is empty, the run is one error line
  and exit code 1: no query and no notification happen, whatever the outside would
  have answered.
\<close>

theorem missing_configuration_is_fatal:
  assumes "unset (NTFY_HOST env) \<or> unset (NTFY_SENSOR_TOPIC env) \<or> unset (SSH_HOST env)
           \<or> unset (SSH_USERNAME env) \<or> unset (DATABASE_PATH env)"
  shows "sensors_main loads py_str env w =
           \<lparr>events = [Log ERROR (''Missing required environment variables: ''
                                 @ join '', '' (missing_vars env) @ ''. Exiting.'')],
            exit_code = 1\<rparr>"
proof -
  from assms have "missing_vars env \<noteq> []" by (auto simp: configured_iff)
  then show ?thesis by (simp add: sensors_main_def)
qed

theorem missing_configuration_is_fatal_witness:
  "unset (SSH_HOST (sample_env\<lparr>SSH_HOST := None\<rparr>))
   \<and> sensors_main sample_loads show_value (sample_env\<lparr>SSH_HOST := None\<rparr>)
        (sample_world (SshStdout sample_text)) =
       \<lparr>events = [Log ERROR ''Missing required environment variables: SSH_HOST. Exiting.''],
        exit_code = 1\<rparr>"
proof -
  have h: "unset (SSH_HOST (sample_env\<lparr>SSH_HOST := None\<rparr>))" by (simp add: unset_def)
  have m: "missing_vars (sample_env\<lparr>SSH_HOST := None\<rparr>) = [''SSH_HOST'']"
    by (simp add: missing_vars_def required_vars_def sample_env_def unset_def)
  show ?thesis
    using missing_configuration_is_fatal[of "sample_env\<lparr>SSH_HOST := None\<rparr>" sample_loads show_value
        "sample_world (SshStdout sample_text)"] h
    by (simp add: m)
qed





end
